theory Spec2Isabelle
  imports Main "HOL-Library.Word"
begin

section \<open>Shared data model (package models)\<close>

text \<open>
  An instant (Go's \<open>time.Time\<close>) is the number of nanoseconds since the Unix epoch, in
  UTC. \<open>Before\<close> and \<open>After\<close> are the strict orders on instants. A duration that is only
  compared or added is an \<open>int\<close> number of nanoseconds; where the source multiplies
  durations (the retry backoff) it is a 64-bit word, as \<open>time.Duration\<close> is.
\<close>

type_synonym Time = int

definition Before :: "Time \<Rightarrow> Time \<Rightarrow> bool" where
  "Before t u = (t < u)"

definition After :: "Time \<Rightarrow> Time \<Rightarrow> bool" where
  "After t u = (t > u)"

definition Second :: int where
  "Second = 1000000000"

text \<open>
  \<open>LogEntry\<close>: the structured fields and the tags are type parameters. The store, the
  receiver and the query engine move entries around without looking into them; the
  clone operation instantiates them with references into a heap.
\<close>

record ('f, 't) LogEntry =
  ID :: string
  Timestamp :: Time
  Level :: string
  Message :: string
  Source :: string
  Host :: string
  Service :: string
  Fields :: 'f
  Tags :: 't
  Raw :: string

record TimeRange =
  Start :: Time
  End :: Time

text \<open>\<open>func (tr TimeRange) Contains(t time.Time) bool\<close>\<close>

definition Contains :: "TimeRange \<Rightarrow> Time \<Rightarrow> bool" where
  "Contains tr t = (\<not> Before t (Start tr) \<and> \<not> After t (End tr))"

record ('flt, 'prj) SearchQuery =
  Query :: string
  QTimeRange :: TimeRange
  Filters :: 'flt
  Limit :: int
  Offset :: int
  SortBy :: string
  SortOrder :: string
  QFields :: 'prj


record ('f, 't) Batch =
  Entries :: "('f, 't) LogEntry list"
  BatchID :: string
  BatchSource :: string
  BatchTimestamp :: Time
  Compressed :: bool
  CompressionType :: string

section \<open>Store (FileStore): partitions, gob streams, text match\<close>

subsection \<open>Case-insensitive substring match\<close>

text \<open>\<open>toLower\<close> adds \<open>'a' - 'A'\<close> to every byte in \<open>'A'..'Z'\<close>.\<close>

definition lowerByte :: "char \<Rightarrow> char" where
  "lowerByte c =
     (if of_char CHR ''A'' \<le> (of_char c :: nat) \<and> (of_char c :: nat) \<le> of_char CHR ''Z''
      then char_of ((of_char c :: nat) + 32) else c)"

definition toLower :: "string \<Rightarrow> string" where
  "toLower s = map lowerByte s"

text \<open>
  \<open>contains\<close>: the loop \<open>for i := 0; i <= len(s)-len(substr); i++\<close> comparing the slice
  \<open>s[i:i+len(substr)]\<close> with \<open>substr\<close>.
\<close>

function containsLoop :: "string \<Rightarrow> string \<Rightarrow> nat \<Rightarrow> bool" where
  "containsLoop s substr i =
     (if i \<le> length s - length substr
      then (if take (length substr) (drop i s) = substr then True
            else containsLoop s substr (i + 1))
      else False)"
  by pat_completeness auto
termination
  by (relation "measure (\<lambda>(s, substr, i). Suc (length s - length substr) - i)") auto

definition contains :: "string \<Rightarrow> string \<Rightarrow> bool" where
  "contains s substr =
     (if length substr = 0 then True
      else if length substr > length s then False
      else containsLoop s substr 0)"

definition containsIgnoreCase :: "string \<Rightarrow> string \<Rightarrow> bool" where
  "containsIgnoreCase s substr = contains (toLower s) (toLower substr)"

subsection \<open>The gob stream of a partition file\<close>

text \<open>
  A partition file is the output of \<open>encoding/gob\<close> encoders appended to one another.
  The library is not part of the repository; the model follows its documented stream
  format. An encoder sends the definition of a type once, before the first value of that
  type, and afterwards sends values only. A decoder starts without any definition: a
  value whose type it has not been sent is an error, and so is a definition it has been
  sent already. A file is therefore a list of messages, each either the type
  definitions of \<open>LogEntry\<close> or one encoded entry; a decoded value is the encoded one.
\<close>

datatype 'e gob_msg = TypeDef | Value 'e

text \<open>
  The encoder state is whether the type definitions went out already. \<open>Encode\<close> gives
  the messages written and the new state.
\<close>

definition gob_Encode :: "bool \<Rightarrow> 'e \<Rightarrow> 'e gob_msg list \<times> bool" where
  "gob_Encode sent e = ((if sent then [] else [TypeDef]) @ [Value e], True)"

text \<open>
  \<open>Decode\<close> on a decoder that has (\<open>known\<close>) or has not seen the type definitions, reading
  the remaining messages: \<open>None\<close> is any error (end of file, unknown type, duplicate
  type), otherwise the value, the decoder state and the unread rest.
\<close>

fun gob_Decode :: "bool \<Rightarrow> 'e gob_msg list \<Rightarrow> ('e \<times> bool \<times> 'e gob_msg list) option" where
  "gob_Decode known [] = None"
| "gob_Decode known (TypeDef # ms) = (if known then None else gob_Decode True ms)"
| "gob_Decode known (Value e # ms) = (if known then Some (e, known, ms) else None)"

subsection \<open>readPartition\<close>

text \<open>
  The scan of \<open>readPartition\<close>: one decoder over the whole file, decoding until the first
  error; an entry is kept when the query's time range contains its timestamp and, for a
  non-empty query string, its message matches.
\<close>

definition keepEntry :: "('flt, 'prj) SearchQuery \<Rightarrow> ('f, 't) LogEntry \<Rightarrow> bool" where
  "keepEntry query entry =
     (if \<not> Contains (QTimeRange query) (Timestamp entry) then False
      else if Query query \<noteq> [] \<and> \<not> containsIgnoreCase (Message entry) (Query query) then False
      else True)"

function readLoop ::
  "bool \<Rightarrow> ('f, 't) LogEntry gob_msg list \<Rightarrow> ('flt, 'prj) SearchQuery \<Rightarrow>
   ('f, 't) LogEntry list \<Rightarrow> ('f, 't) LogEntry list" where
  "readLoop known ms query entries =
     (case gob_Decode known ms of
        None \<Rightarrow> entries
      | Some (entry, known', rest) \<Rightarrow>
          readLoop known' rest query (if keepEntry query entry then entries @ [entry] else entries))"
  by pat_completeness auto
termination
proof (relation "measure (\<lambda>(known, ms, query, entries). length ms)")
  show "wf (measure (\<lambda>(known, ms, query, entries). length ms))"
    by simp
next
  fix known :: bool and ms :: "('f, 't) LogEntry gob_msg list"
    and query :: "('flt, 'prj) SearchQuery" and entries :: "('f, 't) LogEntry list"
    and x2 entry y known' rest
  assume dec: "gob_Decode known ms = Some x2" and x2: "(entry, y) = x2" and y: "(known', rest) = y"
  have shorter: "length r < length m" if "gob_Decode k m = Some (e, k', r)"
    for k k' and m r :: "('f, 't) LogEntry gob_msg list" and e
    using that by (induction k m rule: gob_Decode.induct) (auto split: if_splits)
  from dec x2 y have "gob_Decode known ms = Some (entry, known', rest)"
    by simp
  then have "length rest < length ms"
    by (rule shorter)
  then show "((known', rest, query, if keepEntry query entry then entries @ [entry] else entries),
              known, ms, query, entries)
             \<in> measure (\<lambda>(known, ms, query, entries). length ms)"
    by simp
qed

datatype store_error = NotFound | OpenError | DecodeError | EncodeError

definition readPartition ::
  "(string \<rightharpoonup> ('f, 't) LogEntry gob_msg list) \<Rightarrow> string \<Rightarrow> ('flt, 'prj) SearchQuery \<Rightarrow>
   store_error + ('f, 't) LogEntry list" where
  "readPartition disk partPath query =
     (case disk partPath of
        None \<Rightarrow> Inl OpenError
      | Some ms \<Rightarrow> Inr (readLoop False ms query []))"

subsection \<open>Example inputs\<close>

definition entryAt :: "string \<Rightarrow> Time \<Rightarrow> string \<Rightarrow> (unit, unit) LogEntry" where
  "entryAt i t m =
     \<lparr>ID = i, Timestamp = t, Level = ''INFO'', Message = m, Source = ''src'', Host = ''h'',
      Service = ''svc'', Fields = (), Tags = (), Raw = m\<rparr>"

definition queryOver :: "string \<Rightarrow> Time \<Rightarrow> Time \<Rightarrow> (unit, unit) SearchQuery" where
  "queryOver q s e =
     \<lparr>Query = q, QTimeRange = \<lparr>Start = s, End = e\<rparr>, Filters = (), Limit = 100, Offset = 0,
      SortBy = ''timestamp'', SortOrder = ''desc'', QFields = ()\<rparr>"

section \<open>Shipper: circuit breaker and retry\<close>

text \<open>
  The fields of the shipper's \<open>Config\<close> that endpoint selection, the circuit breaker and
  the retry loop read. Go's \<open>int\<close> counters are unbounded integers here (they count
  requests and stay far from the 64-bit range); \<open>RetryBackoff\<close> is a \<open>time.Duration\<close>, a
  64-bit integer whose product with a shifted 1 wraps around.
\<close>

record shipper_Config =
  MaxRetries :: int
  RetryBackoff :: "64 word"
  FailureThreshold :: int
  SuccessThreshold :: int
  OpenTimeout :: int

definition shipper_DefaultConfig :: shipper_Config where
  "shipper_DefaultConfig =
     \<lparr>MaxRetries = 3, RetryBackoff = 1000000000, FailureThreshold = 5, SuccessThreshold = 2,
      OpenTimeout = 30 * Second\<rparr>"

datatype circuitState = circuitClosed | circuitOpen | circuitHalfOpen

record endpoint =
  url :: string
  state :: circuitState
  failures :: int
  successes :: int
  lastFailure :: Time
  consecutiveFail :: int

text \<open>An endpoint as \<open>New\<close> creates it: closed, every counter zero.\<close>

definition newEndpoint :: "string \<Rightarrow> endpoint" where
  "newEndpoint u =
     \<lparr>url = u, state = circuitClosed, failures = 0, successes = 0, lastFailure = 0,
      consecutiveFail = 0\<rparr>"

definition recordSuccess :: "shipper_Config \<Rightarrow> endpoint \<Rightarrow> endpoint" where
  "recordSuccess cfg ep =
     (let ep1 = ep\<lparr>successes := successes ep + 1, consecutiveFail := 0\<rparr>
      in if state ep1 = circuitHalfOpen \<and> successes ep1 \<ge> SuccessThreshold cfg
         then ep1\<lparr>state := circuitClosed, failures := 0, successes := 0\<rparr>
         else ep1)"

text \<open>\<open>recordFailure\<close>; \<open>now\<close> is the clock read by \<open>time.Now()\<close>.\<close>

definition recordFailure :: "shipper_Config \<Rightarrow> Time \<Rightarrow> endpoint \<Rightarrow> endpoint" where
  "recordFailure cfg now ep =
     (let ep1 = ep\<lparr>failures := failures ep + 1, consecutiveFail := consecutiveFail ep + 1,
                    lastFailure := now\<rparr>
      in if state ep1 = circuitHalfOpen
         then ep1\<lparr>state := circuitOpen, successes := 0\<rparr>
         else if consecutiveFail ep1 \<ge> FailureThreshold cfg
         then ep1\<lparr>state := circuitOpen\<rparr>
         else ep1)"

text \<open>
  One iteration of the loop of \<open>selectEndpoint\<close> over an endpoint: the endpoint after it,
  and whether it was appended to \<open>available\<close>. \<open>time.Since(lastFailure)\<close> is
  \<open>now - lastFailure\<close>.
\<close>

definition probe :: "shipper_Config \<Rightarrow> Time \<Rightarrow> endpoint \<Rightarrow> endpoint \<times> bool" where
  "probe cfg now ep =
     (case state ep of
        circuitClosed \<Rightarrow> (ep, True)
      | circuitHalfOpen \<Rightarrow> (ep, True)
      | circuitOpen \<Rightarrow>
          if now - lastFailure ep > OpenTimeout cfg
          then (ep\<lparr>state := circuitHalfOpen\<rparr>, True)
          else (ep, False))"

text \<open>
  \<open>selectEndpoint\<close>: endpoints are named by their index in the shipper's list. \<open>draw\<close> is
  the random source: \<open>rand.Intn(n)\<close> is \<open>draw mod n\<close>, any value below \<open>n\<close>. The result is
  the chosen index (\<open>None\<close> for \<open>nil\<close>) and the endpoints after the state changes.
\<close>

definition selectEndpoint ::
  "shipper_Config \<Rightarrow> Time \<Rightarrow> nat \<Rightarrow> endpoint list \<Rightarrow> nat option \<times> endpoint list" where
  "selectEndpoint cfg now draw eps =
     (let probed = map (probe cfg now) eps;
          available = filter (\<lambda>i. snd (probed ! i)) [0..<length eps]
      in if length available = 0 then (None, map fst probed)
         else (Some (available ! (draw mod length available)), map fst probed))"












section \<open>Receiver: rate limiting and batch handoff\<close>

text \<open>
  The fields of the receiver's \<open>Config\<close> that \<open>handleIngest\<close> and \<open>checkRateLimit\<close> read.
  The counters of \<open>Stats\<close> are \<open>uint64\<close>, incremented with \<open>atomic.AddUint64\<close>.
\<close>

record receiver_Config =
  MaxBatchSize :: int
  RateLimit :: int

record Stats =
  RequestsReceived :: "64 word"
  LogsReceived :: "64 word"
  BytesReceived :: "64 word"
  Errors :: "64 word"
  LastReceived :: Time

record rateLimiter =
  tokens :: int
  maxTokens :: int
  lastRefill :: Time

text \<open>
  The receiver. \<open>outputChan\<close> is the content of the buffered channel \<open>r.output\<close>,
  oldest entry first, and \<open>outputCap\<close> its capacity; \<open>ctxDone\<close> says whether the receiver's context is cancelled.
  The handler is modelled on its own: the channel changes only by the handler's sends.
\<close>

record ('f, 't) Receiver =
  config :: receiver_Config
  outputChan :: "('f, 't) LogEntry list"
  outputCap :: nat
  ctxDone :: bool
  stats :: Stats
  rateLimits :: "string \<rightharpoonup> rateLimiter"

text \<open>
  \<open>int(elapsed.Seconds())\<close>: the whole seconds of a duration in nanoseconds, truncated
  towards zero. (\<open>Seconds\<close> goes through \<open>float64\<close>; for durations below \<open>2 ^ 23\<close> seconds
  the conversion is exact and gives this value.)
\<close>

definition wholeSeconds :: "int \<Rightarrow> int" where
  "wholeSeconds d = (if 0 \<le> d then d div Second else - ((- d) div Second))"

text \<open>\<open>func (rl *rateLimiter) allow() bool\<close>; \<open>now\<close> is the clock read by \<open>time.Now()\<close>.\<close>

definition allow :: "rateLimiter \<Rightarrow> Time \<Rightarrow> bool \<times> rateLimiter" where
  "allow rl now =
     (let elapsed = now - lastRefill rl;
          tokensToAdd = wholeSeconds elapsed;
          rl1 = (if tokensToAdd > 0
                 then (let t1 = tokens rl + tokensToAdd
                       in rl\<lparr>tokens := (if t1 > maxTokens rl then maxTokens rl else t1),
                             lastRefill := now\<rparr>)
                 else rl)
      in if tokens rl1 > 0 then (True, rl1\<lparr>tokens := tokens rl1 - 1\<rparr>) else (False, rl1))"

text \<open>
  \<open>checkRateLimit\<close>: \<open>created\<close> is the clock read when a new limiter is made, \<open>now\<close> the one
  read inside \<open>allow\<close>.
\<close>

definition checkRateLimit ::
  "('f, 't) Receiver \<Rightarrow> string \<Rightarrow> Time \<Rightarrow> Time \<Rightarrow> bool \<times> ('f, 't) Receiver" where
  "checkRateLimit r agentID created now =
     (let rl = (case rateLimits r agentID of
                  None \<Rightarrow> \<lparr>tokens = RateLimit (config r), maxTokens = RateLimit (config r),
                            lastRefill = created\<rparr>
                | Some rl \<Rightarrow> rl);
          (ok, rl') = allow rl now
      in (ok, r\<lparr>rateLimits := (rateLimits r)(agentID \<mapsto> rl')\<rparr>))"



text \<open>
  An ingest request as the handler sees it. The body is described by what the library
  calls make of it: whether \<open>gzip.NewReader\<close> accepts it, the number of bytes \<open>io.ReadAll\<close>
  returns (\<open>None\<close>: a read error), and the batch \<open>json.Unmarshal\<close> decodes (\<open>None\<close>: invalid
  JSON).
\<close>

record ('f, 't) ingest_request =
  Method :: string
  XAgentID :: string
  RemoteAddr :: string
  ContentEncoding :: string
  gzipOk :: bool
  bodyLen :: "nat option"
  decoded :: "('f, 't) Batch option"

text \<open>
  What the world contributes to one request: the two clock readings of the rate-limit
  check, the choice a \<open>select\<close> makes for the entry with a given index when both the send
  and \<open>ctx.Done()\<close> are ready (\<open>True\<close>: the send), and the clock for \<open>LastReceived\<close>.
\<close>

record ingest_env =
  clockCreated :: Time
  clockAllow :: Time
  selectSend :: "nat \<Rightarrow> bool"
  clockReceived :: Time

text \<open>The response: the status code, and the \<open>received\<close> field of a 200 body.\<close>

record response =
  status :: int
  received :: "int option"

definition httpError :: "int \<Rightarrow> response" where
  "httpError code = \<lparr>status = code, received = None\<rparr>"

definition addErrors :: "('f, 't) Receiver \<Rightarrow> ('f, 't) Receiver" where
  "addErrors r = r\<lparr>stats := (stats r)\<lparr>Errors := Errors (stats r) + 1\<rparr>\<rparr>"

text \<open>
  The loop \<open>for _, entry := range batch.Entries\<close> with its \<open>select\<close>: the send is possible
  when the channel has room; \<open>None\<close> means the loop ran to its end, otherwise the response
  of the early return.
\<close>

fun handoff ::
  "(nat \<Rightarrow> bool) \<Rightarrow> nat \<Rightarrow> ('f, 't) Receiver \<Rightarrow> ('f, 't) LogEntry list \<Rightarrow>
   response option \<times> ('f, 't) Receiver" where
  "handoff pick k r [] = (None, r)"
| "handoff pick k r (entry # rest) =
     (if length (outputChan r) < outputCap r \<and> (\<not> ctxDone r \<or> pick k)
      then handoff pick (k + 1)
             (r\<lparr>outputChan := outputChan r @ [entry],
                stats := (stats r)\<lparr>LogsReceived := LogsReceived (stats r) + 1\<rparr>\<rparr>) rest
      else if ctxDone r then (Some (httpError 503), r)
      else (Some (httpError 503), addErrors r))"

definition handleIngest ::
  "('f, 't) Receiver \<Rightarrow> ingest_env \<Rightarrow> ('f, 't) ingest_request \<Rightarrow> response \<times> ('f, 't) Receiver" where
  "handleIngest r env req =
     (if Method req \<noteq> ''POST'' then (httpError 405, r)
      else
        let r1 = r\<lparr>stats := (stats r)\<lparr>RequestsReceived := RequestsReceived (stats r) + 1\<rparr>\<rparr>;
            agentID = (if XAgentID req = [] then RemoteAddr req else XAgentID req);
            (ok, r2) = checkRateLimit r1 agentID (clockCreated env) (clockAllow env)
        in if \<not> ok then (httpError 429, addErrors r2)
           else if ContentEncoding req = ''gzip'' \<and> \<not> gzipOk req then (httpError 400, addErrors r2)
           else
             (case bodyLen req of
                None \<Rightarrow> (httpError 400, addErrors r2)
              | Some n \<Rightarrow>
                  let r3 = r2\<lparr>stats := (stats r2)\<lparr>BytesReceived := BytesReceived (stats r2) + of_nat n\<rparr>\<rparr>
                  in (case decoded req of
                        None \<Rightarrow> (httpError 400, addErrors r3)
                      | Some batch \<Rightarrow>
                          if int (length (Entries batch)) > MaxBatchSize (config r3)
                          then (httpError 413, addErrors r3)
                          else
                            (case handoff (selectSend env) 0 r3 (Entries batch) of
                               (Some resp, r4) \<Rightarrow> (resp, r4)
                             | (None, r4) \<Rightarrow>
                                 (\<lparr>status = 200, received = Some (int (length (Entries batch)))\<rparr>,
                                  r4\<lparr>stats := (stats r4)\<lparr>LastReceived := clockReceived env\<rparr>\<rparr>)))))"

text \<open>\<open>receiver.New\<close>: no limiter yet, counters zero.\<close>

definition newReceiver :: "receiver_Config \<Rightarrow> nat \<Rightarrow> ('f, 't) LogEntry list \<Rightarrow> ('f, 't) Receiver" where
  "newReceiver cfg cap queued =
     \<lparr>config = cfg, outputChan = queued, outputCap = cap, ctxDone = False,
      stats = \<lparr>RequestsReceived = 0, LogsReceived = 0, BytesReceived = 0, Errors = 0,
               LastReceived = 0\<rparr>,
      rateLimits = Map.empty\<rparr>"

definition receiver_DefaultConfig :: receiver_Config where
  "receiver_DefaultConfig = \<lparr>MaxBatchSize = 10000, RateLimit = 1000\<rparr>"


definition sampleBatch :: "(unit, unit) LogEntry list \<Rightarrow> (unit, unit) Batch" where
  "sampleBatch es =
     \<lparr>Entries = es, BatchID = ''b1'', BatchSource = ''agent-1'', BatchTimestamp = 0,
      Compressed = False, CompressionType = []\<rparr>"

definition postOf :: "(unit, unit) Batch \<Rightarrow> (unit, unit) ingest_request" where
  "postOf b =
     \<lparr>Method = ''POST'', XAgentID = ''agent-1'', RemoteAddr = ''10.0.0.1:5000'',
      ContentEncoding = [], gzipOk = True, bodyLen = Some 100, decoded = Some b\<rparr>"

definition envAt :: "Time \<Rightarrow> ingest_env" where
  "envAt t = \<lparr>clockCreated = t, clockAllow = t, selectSend = (\<lambda>k. True), clockReceived = t\<rparr>"




section \<open>Query engine: validation, sorting, pagination, cache\<close>

text \<open>
  The store behind the engine is the interface \<open>storage.Store\<close>; the engine only calls
  its \<open>Query\<close>, which is a parameter here: a function from the validated query to an
  error or a result.
\<close>

datatype query_error = StoreFailure string









text \<open>\<open>%d\<close> of \<open>fmt.Sprintf\<close>: the decimal digits, with a minus sign for a negative number.\<close>

function digitsOf :: "nat \<Rightarrow> string" where
  "digitsOf n =
     (if n < 10 then [char_of (48 + n)] else digitsOf (n div 10) @ [char_of (48 + n mod 10)])"
  by pat_completeness auto
termination
  by (relation "measure id") auto

definition fmtInt :: "int \<Rightarrow> string" where
  "fmtInt i = (if i < 0 then CHR ''-'' # digitsOf (nat (- i)) else digitsOf (nat i))"













section \<open>LogEntry.Clone on a heap\<close>

text \<open>
  \<open>Clone\<close> is about sharing, so entries live in a heap here. A value of type
  \<open>interface{}\<close> stored in \<open>Fields\<close> is a scalar, or a reference to a map
  (\<open>map[string]interface{}\<close>) or to the array behind a slice (\<open>[]interface{}\<close>): copying
  such a value copies the reference. The \<open>Fields\<close> of an entry is a reference to a map
  object or nil, its \<open>Tags\<close> a reference to an array of strings or nil (a slice is
  modelled with its length equal to its capacity).
\<close>

type_synonym addr = nat

datatype val = VNil | VString string | VNumber int | VBool bool | VMap addr | VSlice addr

datatype obj =
    MapObj "string \<rightharpoonup> val"
  | ArrayObj "val list"
  | TagsObj "string list"
  | EntryObj "(addr option, addr option) LogEntry"

record heap =
  objs :: "addr \<rightharpoonup> obj"
  nextFree :: addr

text \<open>Allocation takes the next free address.\<close>

definition alloc :: "heap \<Rightarrow> obj \<Rightarrow> addr \<times> heap" where
  "alloc h ob = (nextFree h, \<lparr>objs = (objs h)(nextFree h \<mapsto> ob), nextFree = nextFree h + 1\<rparr>)"

definition store :: "heap \<Rightarrow> addr \<Rightarrow> obj \<Rightarrow> heap" where
  "store h a ob = h\<lparr>objs := (objs h)(a \<mapsto> ob)\<rparr>"

text \<open>Reading through the references of an entry: a nil map has no keys, a nil slice no elements.\<close>

definition fieldsOf :: "heap \<Rightarrow> addr option \<Rightarrow> (string \<rightharpoonup> val)" where
  "fieldsOf h f =
     (case f of
        None \<Rightarrow> Map.empty
      | Some m \<Rightarrow> (case objs h m of Some (MapObj kv) \<Rightarrow> kv | _ \<Rightarrow> Map.empty))"

definition tagsOf :: "heap \<Rightarrow> addr option \<Rightarrow> string list" where
  "tagsOf h t =
     (case t of
        None \<Rightarrow> []
      | Some a \<Rightarrow> (case objs h a of Some (TagsObj ts) \<Rightarrow> ts | _ \<Rightarrow> []))"

text \<open>
  \<open>func (l *LogEntry) Clone() *LogEntry\<close>: \<open>l\<close> is the address of the receiver; the result
  is the address of the clone and the heap after the call (\<open>None\<close>: \<open>l\<close> is not an entry).
  The composite literal allocates the new map, the new slice of \<open>len(l.Tags)\<close> empty
  strings and the new entry; the loop stores every key of \<open>l.Fields\<close> with its value into
  the new map; \<open>copy\<close> fills the new slice.
\<close>

definition Clone :: "heap \<Rightarrow> addr \<Rightarrow> (addr \<times> heap) option" where
  "Clone h l =
     (case objs h l of
        Some (EntryObj e) \<Rightarrow>
          (let (m, h1) = alloc h (MapObj Map.empty);
               (t, h2) = alloc h1 (TagsObj (replicate (length (tagsOf h (Tags e))) []));
               (c, h3) = alloc h2 (EntryObj (e\<lparr>Fields := Some m, Tags := Some t\<rparr>));
               h4 = store h3 m (MapObj (Map.empty ++ fieldsOf h (Fields e)));
               h5 = store h4 t (TagsObj (tagsOf h (Tags e)))
           in Some (c, h5))
      | _ \<Rightarrow> None)"

text \<open>\<open>GetField\<close>, and the read \<open>v.(map[string]interface{})[key]\<close> of a nested map.\<close>

definition GetField :: "heap \<Rightarrow> addr \<Rightarrow> string \<Rightarrow> val option" where
  "GetField h l key =
     (case objs h l of
        Some (EntryObj e) \<Rightarrow> fieldsOf h (Fields e) key
      | _ \<Rightarrow> None)"

definition nestedGet :: "heap \<Rightarrow> val \<Rightarrow> string \<Rightarrow> val option" where
  "nestedGet h v key = (case v of VMap a \<Rightarrow> fieldsOf h (Some a) key | _ \<Rightarrow> None)"

text \<open>
  The writes a holder of an entry can make: \<open>AddField\<close> (a store into the entry's own
  map, made first when it is nil), the assignment \<open>l.Message = s\<close>, the assignment
  \<open>l.Tags[i] = s\<close>, and a store into a map nested in \<open>Fields\<close>,
  \<open>v.(map[string]interface{})[key] = value\<close>.
\<close>

definition AddField :: "heap \<Rightarrow> addr \<Rightarrow> string \<Rightarrow> val \<Rightarrow> heap" where
  "AddField h l key value =
     (case objs h l of
        Some (EntryObj e) \<Rightarrow>
          (case Fields e of
             None \<Rightarrow>
               (let (m, h1) = alloc h (MapObj Map.empty);
                    h2 = store h1 l (EntryObj (e\<lparr>Fields := Some m\<rparr>))
                in store h2 m (MapObj [key \<mapsto> value]))
           | Some m \<Rightarrow> store h m (MapObj ((fieldsOf h (Some m))(key \<mapsto> value))))
      | _ \<Rightarrow> h)"

definition setMessage :: "heap \<Rightarrow> addr \<Rightarrow> string \<Rightarrow> heap" where
  "setMessage h l s =
     (case objs h l of
        Some (EntryObj e) \<Rightarrow> store h l (EntryObj (e\<lparr>Message := s\<rparr>))
      | _ \<Rightarrow> h)"

definition setTag :: "heap \<Rightarrow> addr \<Rightarrow> nat \<Rightarrow> string \<Rightarrow> heap" where
  "setTag h l i s =
     (case objs h l of
        Some (EntryObj e) \<Rightarrow>
          (case Tags e of
             Some t \<Rightarrow>
               (if i < length (tagsOf h (Some t)) then store h t (TagsObj ((tagsOf h (Some t))[i := s]))
                else h)
           | None \<Rightarrow> h)
      | _ \<Rightarrow> h)"

definition nestedSet :: "heap \<Rightarrow> val \<Rightarrow> string \<Rightarrow> val \<Rightarrow> heap" where
  "nestedSet h v key value =
     (case v of
        VMap a \<Rightarrow> store h a (MapObj ((fieldsOf h (Some a))(key \<mapsto> value)))
      | _ \<Rightarrow> h)"

text \<open>What a holder of the entry \<open>l\<close> sees at \<open>l.Fields[k1].(map[string]interface{})[k2]\<close>.\<close>

definition readNested :: "heap \<Rightarrow> addr \<Rightarrow> string \<Rightarrow> string \<Rightarrow> val option" where
  "readNested h l k1 k2 = (case GetField h l k1 of None \<Rightarrow> None | Some v \<Rightarrow> nestedGet h v k2)"

text \<open>
  An entry whose field \<open>request\<close> holds a nested map \<open>{status: 200}\<close>, as the JSON parser
  makes for a nested object: the nested map at address 0, the entry's \<open>Fields\<close> at 1, its
  tags at 2, the entry itself at 3.
\<close>

definition nestedHeap :: heap where
  "nestedHeap =
     \<lparr>objs = [0 \<mapsto> MapObj [''status'' \<mapsto> VNumber 200],
              1 \<mapsto> MapObj [''request'' \<mapsto> VMap 0],
              2 \<mapsto> TagsObj [''web''],
              3 \<mapsto> EntryObj \<lparr>ID = ''id-1'', Timestamp = 0, Level = ''INFO'', Message = ''m'',
                              Source = ''s'', Host = ''h'', Service = ''svc'', Fields = Some 1,
                              Tags = Some 2, Raw = ''raw''\<rparr>],
      nextFree = 4\<rparr>"


section \<open>Store (FileStore): Write and Get\<close>

text \<open>
  What the store takes from the standard library and the operating system, as
  parameters: the text \<open>Format("2006-01-02-15")\<close> gives for an instant (it names the hour),
  the number of bytes of a gob message on the wire, and whether \<open>Encode\<close> accepts an
  entry (it rejects a value of an unregistered type inside \<open>Fields\<close>).
\<close>

record 'e stdlib =
  formatHour :: "Time \<Rightarrow> string"
  wireSize :: "'e gob_msg \<Rightarrow> nat"
  gobEncodable :: "'e \<Rightarrow> bool"

record storage_Config =
  Path :: string
  PartitionInterval :: int

text \<open>
  A partition: its file is named by \<open>partPath\<close> and opened for appending; of its encoder
  the model keeps whether the type definitions went out (\<open>encoderSent\<close>).
\<close>

record partition =
  partPath :: string
  startTime :: Time
  endTime :: Time
  encoderSent :: bool
  partCount :: int

record indexEntry =
  ixID :: string
  ixPartition :: string
  ixOffset :: nat
  ixTimestamp :: Time

record StoreStats =
  TotalEntries :: "64 word"
  TotalSize :: "64 word"
  OldestEntry :: Time
  NewestEntry :: Time

text \<open>The store, with the files of its directory (\<open>disk\<close>: path to content).\<close>

record ('f, 't) FileStore =
  storeConfig :: storage_Config
  partitions :: "string \<rightharpoonup> partition"
  storeStats :: StoreStats
  storeIndex :: "string \<rightharpoonup> indexEntry"
  disk :: "string \<rightharpoonup> ('f, 't) LogEntry gob_msg list"

text \<open>
  The zero \<open>time.Time\<close> is the first instant of year 1, 62135596800 seconds before the
  Unix epoch. \<open>Truncate\<close> rounds down to a multiple of the duration since the zero time,
  and returns the instant itself for a duration that is not positive.
\<close>

definition zeroTime :: Time where
  "zeroTime = - 62135596800 * Second"

definition Truncate :: "Time \<Rightarrow> int \<Rightarrow> Time" where
  "Truncate t d = (if d \<le> 0 then t else t - (t - zeroTime) mod d)"

definition fileSize :: "('m \<Rightarrow> nat) \<Rightarrow> 'm list \<Rightarrow> nat" where
  "fileSize ws ms = sum_list (map ws ms)"

text \<open>
  \<open>getPartition\<close>: the partition, its key and the store after the call. A missing
  partition is made: \<open>os.OpenFile\<close> with \<open>O_APPEND|O_CREATE\<close> creates an empty file when
  there is none and keeps the content of an existing one; the new encoder has sent
  nothing.
\<close>

definition getPartition ::
  "('f, 't) LogEntry stdlib \<Rightarrow> ('f, 't) FileStore \<Rightarrow> Time \<Rightarrow>
   partition \<times> string \<times> ('f, 't) FileStore" where
  "getPartition lib fs t =
     (let partTime = Truncate t (PartitionInterval (storeConfig fs));
          key = formatHour lib partTime
      in case partitions fs key of
           Some part \<Rightarrow> (part, key, fs)
         | None \<Rightarrow>
             (let filename = Path (storeConfig fs) @ ''/'' @ ''partition_'' @ key @ ''.gob'';
                  part = \<lparr>partPath = filename, startTime = partTime,
                          endTime = partTime + PartitionInterval (storeConfig fs),
                          encoderSent = False, partCount = 0\<rparr>
              in (part, key,
                  fs\<lparr>partitions := (partitions fs)(key \<mapsto> part),
                     disk := (case disk fs filename of
                                None \<Rightarrow> (disk fs)(filename \<mapsto> [])
                              | Some content \<Rightarrow> disk fs)\<rparr>)))"

text \<open>
  \<open>Write\<close>: the error, if any, and the store after the call. The offset recorded in the
  index is the size of the partition file before the entry is encoded.
\<close>

definition Write ::
  "('f, 't) LogEntry stdlib \<Rightarrow> ('f, 't) FileStore \<Rightarrow> ('f, 't) LogEntry \<Rightarrow>
   store_error option \<times> ('f, 't) FileStore" where
  "Write lib fs entry =
     (case getPartition lib fs (Timestamp entry) of
        (part, key, fs1) \<Rightarrow>
          (let content = (case disk fs1 (partPath part) of None \<Rightarrow> [] | Some ms \<Rightarrow> ms);
               offset = fileSize (wireSize lib) content
           in if \<not> gobEncodable lib entry then (Some EncodeError, fs1)
              else
                (case gob_Encode (encoderSent part) entry of
                   (msgs, sent) \<Rightarrow>
                     (let part' = part\<lparr>encoderSent := sent, partCount := partCount part + 1\<rparr>;
                          st = storeStats fs1;
                          st1 = st\<lparr>TotalEntries := TotalEntries st + 1\<rparr>;
                          st2 = (if OldestEntry st1 = zeroTime \<or> Before (Timestamp entry) (OldestEntry st1)
                                 then st1\<lparr>OldestEntry := Timestamp entry\<rparr> else st1);
                          st3 = (if After (Timestamp entry) (NewestEntry st2)
                                 then st2\<lparr>NewestEntry := Timestamp entry\<rparr> else st2)
                      in (None,
                          fs1\<lparr>partitions := (partitions fs1)(key \<mapsto> part'),
                              disk := (disk fs1)(partPath part \<mapsto> content @ msgs),
                              storeIndex := (storeIndex fs1)(ID entry \<mapsto>
                                 \<lparr>ixID = ID entry, ixPartition = partPath part, ixOffset = offset,
                                  ixTimestamp = Timestamp entry\<rparr>),
                              storeStats := st3\<rparr>)))))"

text \<open>
  \<open>file.Seek(offset, 0)\<close> on a file of gob messages: the messages from the offset on,
  when the offset is where a message starts (\<open>None\<close> otherwise: the decoder then reads
  the middle of a message, or nothing).
\<close>

fun seekTo :: "('m \<Rightarrow> nat) \<Rightarrow> nat \<Rightarrow> 'm list \<Rightarrow> 'm list option" where
  "seekTo ws 0 ms = Some ms"
| "seekTo ws (Suc n) [] = None"
| "seekTo ws (Suc n) (m # ms) = (if ws m \<le> Suc n then seekTo ws (Suc n - ws m) ms else None)"

text \<open>\<open>Get\<close>: a new decoder reads the partition file from the recorded offset.\<close>

definition Get ::
  "('f, 't) LogEntry stdlib \<Rightarrow> ('f, 't) FileStore \<Rightarrow> string \<Rightarrow> store_error + ('f, 't) LogEntry" where
  "Get lib fs i =
     (case storeIndex fs i of
        None \<Rightarrow> Inl NotFound
      | Some idx \<Rightarrow>
          (case disk fs (ixPartition idx) of
             None \<Rightarrow> Inl OpenError
           | Some content \<Rightarrow>
               (case seekTo (wireSize lib) (ixOffset idx) content of
                  None \<Rightarrow> Inl DecodeError
                | Some rest \<Rightarrow>
                    (case gob_Decode False rest of
                       None \<Rightarrow> Inl DecodeError
                     | Some (entry, known, unread) \<Rightarrow> Inr entry))))"

text \<open>\<open>NewFileStore\<close> on an empty directory.\<close>

definition NewFileStore :: "storage_Config \<Rightarrow> ('f, 't) FileStore" where
  "NewFileStore cfg =
     \<lparr>storeConfig = cfg, partitions = Map.empty,
      storeStats = \<lparr>TotalEntries = 0, TotalSize = 0, OldestEntry = zeroTime, NewestEntry = zeroTime\<rparr>,
      storeIndex = Map.empty, disk = Map.empty\<rparr>"

definition storage_DefaultConfig :: storage_Config where
  "storage_DefaultConfig = \<lparr>Path = ''/var/lib/logpipeline/data'', PartitionInterval = 24 * 3600 * Second\<rparr>"

text \<open>
  A library for the examples: the hour is named by its number since the epoch, a message
  takes a positive number of bytes, every entry can be encoded.
\<close>

definition sampleLib :: "(unit, unit) LogEntry stdlib" where
  "sampleLib =
     \<lparr>formatHour = (\<lambda>t. fmtInt (t div (3600 * Second))),
      wireSize = (\<lambda>m. case m of TypeDef \<Rightarrow> 120 | Value e \<Rightarrow> 40 + length (Message e)),
      gobEncodable = (\<lambda>e. True)\<rparr>"


section \<open>Verified properties\<close>

subsection \<open>Store: time range containment\<close>

lemma Contains_iff: "Contains tr t \<longleftrightarrow> Start tr \<le> t \<and> t \<le> End tr"
  by (auto simp: Contains_def Before_def After_def)

lemma readLoop_keeps:
  "set (readLoop known ms query entries) \<subseteq> set entries \<union> {e. keepEntry query e}"
proof (induction known ms query entries rule: readLoop.induct)
  case (1 known ms query entries)
  show ?case
  proof (cases "gob_Decode known ms")
    case None
    then show ?thesis by simp
  next
    case (Some r)
    obtain entry known' rest where r: "r = (entry, known', rest)"
      by (cases r) auto
    from "1.IH" [OF Some [unfolded r] refl refl] Some r show ?thesis
      by (auto split: if_splits)
  qed
qed

text \<open>
  C6, as amended. The containment test of the scan is inclusive at both ends: a
  timestamp is contained exactly when it lies between \<open>Start\<close> and \<open>End\<close>, either bound
  included, and \<open>readPartition\<close> keeps an entry exactly when its timestamp is contained in
  that sense and the query string is empty or occurs in the message.
\<close>

theorem Contains_inclusive_both_ends:
  "(Contains tr t \<longleftrightarrow> Start tr \<le> t \<and> t \<le> End tr) \<and>
   (keepEntry query entry \<longleftrightarrow>
      Start (QTimeRange query) \<le> Timestamp entry \<and> Timestamp entry \<le> End (QTimeRange query) \<and>
      (Query query = [] \<or> containsIgnoreCase (Message entry) (Query query)))"
  by (auto simp: keepEntry_def Contains_iff)

text \<open>
  C6 as stated fails: with the range from 0 to 10, the timestamp 10 (equal to \<open>End\<close>) is
  contained, and the scan of a partition holding one entry stamped 10 returns it.
\<close>

theorem Contains_end_counterexample:
  "Contains \<lparr>Start = 0, End = 10\<rparr> 10 \<and>
   readPartition [''p'' \<mapsto> [TypeDef, Value (entryAt ''a'' 10 ''m'')]] ''p'' (queryOver [] 0 10)
     = Inr [entryAt ''a'' 10 ''m'']"
  by (simp add: readPartition_def keepEntry_def Contains_iff entryAt_def queryOver_def)

subsection \<open>Shipper: the retry loop\<close>








subsection \<open>Shipper: the circuit breaker\<close>

lemma recordFailure_HalfOpen:
  "state ep = circuitHalfOpen \<Longrightarrow> state (recordFailure cfg now ep) = circuitOpen"
  by (simp add: recordFailure_def Let_def)

lemma recordFailure_Open:
  "state ep = circuitOpen \<Longrightarrow> state (recordFailure cfg now ep) = circuitOpen"
  by (simp add: recordFailure_def Let_def)

lemma recordFailure_consecutiveFail:
  "consecutiveFail (recordFailure cfg now ep) = consecutiveFail ep + 1"
  by (simp add: recordFailure_def Let_def)

lemma recordFailure_threshold:
  "FailureThreshold cfg \<le> consecutiveFail ep + 1 \<Longrightarrow> state (recordFailure cfg now ep) = circuitOpen"
  by (simp add: recordFailure_def Let_def)

lemma recordFailure_lastFailure: "lastFailure (recordFailure cfg now ep) = now"
  by (simp add: recordFailure_def Let_def)

text \<open>After consecutive failures, as many as the threshold and at least one, the circuit is open.\<close>

lemma failures_open:
  "0 \<le> consecutiveFail ep \<Longrightarrow> ts \<noteq> [] \<Longrightarrow> FailureThreshold cfg \<le> int (length ts) \<Longrightarrow>
   state (fold (recordFailure cfg) ts ep) = circuitOpen"
proof (induction ts arbitrary: ep rule: rev_induct)
  case Nil
  then show ?case by simp
next
  case (snoc t ts)
  have c: "consecutiveFail (fold (recordFailure cfg) ts ep) = consecutiveFail ep + int (length ts)"
    by (induction ts rule: rev_induct) (simp_all add: recordFailure_consecutiveFail)
  show ?case
    using snoc.prems by (simp add: recordFailure_threshold c)
qed

lemma selectEndpoint_length: "length (snd (selectEndpoint cfg now draw eps)) = length eps"
  by (simp add: selectEndpoint_def Let_def)

lemma selectEndpoint_nth:
  "i < length eps \<Longrightarrow> snd (selectEndpoint cfg now draw eps) ! i = fst (probe cfg now (eps ! i))"
  by (simp add: selectEndpoint_def Let_def)

lemma selectEndpoint_available:
  "fst (selectEndpoint cfg now draw eps) = Some i \<Longrightarrow> i < length eps \<and> snd (probe cfg now (eps ! i))"
proof -
  assume a: "fst (selectEndpoint cfg now draw eps) = Some i"
  let ?av = "filter (\<lambda>i. snd (map (probe cfg now) eps ! i)) [0..<length eps]"
  from a have ne: "length ?av \<noteq> 0" and i: "i = ?av ! (draw mod length ?av)"
    by (auto simp: selectEndpoint_def Let_def split: if_splits)
  from ne have "draw mod length ?av < length ?av" by simp
  then have "i \<in> set ?av" unfolding i by (rule nth_mem)
  then show ?thesis by auto
qed

text \<open>An open endpoint is not selected, and stays open, until the timeout has elapsed.\<close>

lemma open_not_selected:
  assumes "i < length eps" "state (eps ! i) = circuitOpen"
    and "now - lastFailure (eps ! i) \<le> OpenTimeout cfg"
  shows "fst (selectEndpoint cfg now draw eps) \<noteq> Some i \<and>
         state (snd (selectEndpoint cfg now draw eps) ! i) = circuitOpen"
proof -
  from assms have p: "probe cfg now (eps ! i) = (eps ! i, False)"
    by (simp add: probe_def)
  show ?thesis
    using selectEndpoint_available [of cfg now draw eps i] assms(1,2)
    by (auto simp: selectEndpoint_nth p)
qed

lemma open_half_opens:
  assumes "i < length eps" "state (eps ! i) = circuitOpen"
    and "now - lastFailure (eps ! i) > OpenTimeout cfg"
  shows "state (snd (selectEndpoint cfg now draw eps) ! i) = circuitHalfOpen"
  using assms by (simp add: selectEndpoint_nth probe_def)

text \<open>In HalfOpen a success closes the circuit as soon as the counter reaches the threshold,
  whatever part of the count was recorded before the circuit opened.\<close>

lemma recordSuccess_HalfOpen:
  "state ep = circuitHalfOpen \<Longrightarrow>
   state (recordSuccess cfg ep) =
     (if SuccessThreshold cfg \<le> successes ep + 1 then circuitClosed else circuitHalfOpen)"
  by (simp add: recordSuccess_def Let_def)

lemma recordSuccess_keeps_count:
  "state ep \<noteq> circuitHalfOpen \<Longrightarrow>
   state (recordSuccess cfg ep) = state ep \<and> successes (recordSuccess cfg ep) = successes ep + 1"
  by (simp add: recordSuccess_def Let_def)

lemma recordFailure_keeps_successes:
  "state ep \<noteq> circuitHalfOpen \<Longrightarrow> successes (recordFailure cfg now ep) = successes ep"
  by (simp add: recordFailure_def Let_def)

text \<open>
  C3 fails on the code. With the default configuration (\<open>SuccessThreshold = 2\<close>,
  \<open>FailureThreshold = 5\<close>, \<open>OpenTimeout\<close> 30 s): a new endpoint records two successes while
  closed, then five failures, which open the circuit with the success counter still at 2;
  after the timeout \<open>selectEndpoint\<close> makes it half-open; the first success recorded in
  HalfOpen raises the counter to 3 and closes the circuit, where the claim asks for two
  successes in HalfOpen.
\<close>

theorem HalfOpen_closes_after_one_success:
  "SuccessThreshold shipper_DefaultConfig = 2 \<and>
   fold (recordFailure shipper_DefaultConfig) [0, 0, 0, 0, 0]
     (recordSuccess shipper_DefaultConfig (recordSuccess shipper_DefaultConfig (newEndpoint ''u'')))
     = \<lparr>url = ''u'', state = circuitOpen, failures = 5, successes = 2, lastFailure = 0,
        consecutiveFail = 5\<rparr> \<and>
   selectEndpoint shipper_DefaultConfig (31 * Second) 0
     [\<lparr>url = ''u'', state = circuitOpen, failures = 5, successes = 2, lastFailure = 0,
       consecutiveFail = 5\<rparr>]
     = (Some 0, [\<lparr>url = ''u'', state = circuitHalfOpen, failures = 5, successes = 2,
                   lastFailure = 0, consecutiveFail = 5\<rparr>]) \<and>
   recordSuccess shipper_DefaultConfig
     \<lparr>url = ''u'', state = circuitHalfOpen, failures = 5, successes = 2, lastFailure = 0,
      consecutiveFail = 5\<rparr>
     = \<lparr>url = ''u'', state = circuitClosed, failures = 0, successes = 0, lastFailure = 0,
        consecutiveFail = 0\<rparr>"
proof -
  let ?cfg = shipper_DefaultConfig
  have s: "recordSuccess ?cfg (recordSuccess ?cfg (newEndpoint ''u''))
      = \<lparr>url = ''u'', state = circuitClosed, failures = 0, successes = 2, lastFailure = 0,
         consecutiveFail = 0\<rparr>"
    by (simp add: recordSuccess_def newEndpoint_def shipper_DefaultConfig_def)
  have f: "recordFailure ?cfg 0 \<lparr>url = ''u'', state = circuitClosed, failures = k, successes = 2,
        lastFailure = 0, consecutiveFail = k\<rparr>
      = \<lparr>url = ''u'', state = (if 5 \<le> k + 1 then circuitOpen else circuitClosed),
         failures = k + 1, successes = 2, lastFailure = 0, consecutiveFail = k + 1\<rparr>" for k
    by (simp add: recordFailure_def shipper_DefaultConfig_def)
  have c1: "SuccessThreshold ?cfg = 2"
    by (simp add: shipper_DefaultConfig_def)
  have c2: "fold (recordFailure ?cfg) [0, 0, 0, 0, 0]
       (recordSuccess ?cfg (recordSuccess ?cfg (newEndpoint ''u'')))
     = \<lparr>url = ''u'', state = circuitOpen, failures = 5, successes = 2, lastFailure = 0,
        consecutiveFail = 5\<rparr>"
    unfolding s by (simp add: f)
  have c3: "selectEndpoint ?cfg (31 * Second) 0
     [\<lparr>url = ''u'', state = circuitOpen, failures = 5, successes = 2, lastFailure = 0,
       consecutiveFail = 5\<rparr>]
     = (Some 0, [\<lparr>url = ''u'', state = circuitHalfOpen, failures = 5, successes = 2,
                   lastFailure = 0, consecutiveFail = 5\<rparr>])"
    by (simp add: selectEndpoint_def probe_def shipper_DefaultConfig_def Second_def)
  have c4: "recordSuccess ?cfg
     \<lparr>url = ''u'', state = circuitHalfOpen, failures = 5, successes = 2, lastFailure = 0,
      consecutiveFail = 5\<rparr>
     = \<lparr>url = ''u'', state = circuitClosed, failures = 0, successes = 0, lastFailure = 0,
        consecutiveFail = 0\<rparr>"
    by (simp add: recordSuccess_def shipper_DefaultConfig_def)
  from c1 c2 c3 c4 show ?thesis by (intro conjI)
qed

subsection \<open>Receiver: batch handoff\<close>

lemma checkRateLimit_frame:
  "checkRateLimit r agentID created now = (ok, r') \<Longrightarrow>
   outputChan r' = outputChan r \<and> outputCap r' = outputCap r \<and> ctxDone r' = ctxDone r \<and>
   stats r' = stats r \<and> config r' = config r"
  by (auto simp: checkRateLimit_def Let_def split: prod.splits)

lemma handoff_done:
  "handoff pick k r es = (None, r') \<Longrightarrow>
   outputChan r' = outputChan r @ es \<and>
   LogsReceived (stats r') = LogsReceived (stats r) + of_nat (length es)"
proof (induction es arbitrary: k r)
  case Nil
  then show ?case by simp
next
  case (Cons e es)
  from Cons.prems
  have ok: "length (outputChan r) < outputCap r \<and> (\<not> ctxDone r \<or> pick k)"
    by (auto split: if_splits)
  let ?r1 = "r\<lparr>outputChan := outputChan r @ [e],
                stats := (stats r)\<lparr>LogsReceived := LogsReceived (stats r) + 1\<rparr>\<rparr>"
  from Cons.prems ok have "handoff pick (k + 1) ?r1 es = (None, r')"
    by simp
  from Cons.IH [OF this] show ?case
    by simp
qed

lemma handoff_stopped:
  "handoff pick k r es = (Some resp, r') \<Longrightarrow>
   status resp = 503 \<and>
   (\<exists>j < length es. outputChan r' = outputChan r @ take j es \<and>
      LogsReceived (stats r') = LogsReceived (stats r) + of_nat j)"
proof (induction es arbitrary: k r)
  case Nil
  then show ?case by simp
next
  case (Cons e es)
  show ?case
  proof (cases "length (outputChan r) < outputCap r \<and> (\<not> ctxDone r \<or> pick k)")
    case True
    let ?r1 = "r\<lparr>outputChan := outputChan r @ [e],
                  stats := (stats r)\<lparr>LogsReceived := LogsReceived (stats r) + 1\<rparr>\<rparr>"
    from Cons.prems True have "handoff pick (k + 1) ?r1 es = (Some resp, r')"
      by simp
    from Cons.IH [OF this] obtain j where j: "j < length es"
      "outputChan r' = outputChan ?r1 @ take j es"
      "LogsReceived (stats r') = LogsReceived (stats ?r1) + of_nat j" and s: "status resp = 503"
      by blast
    from j have "Suc j < length (e # es) \<and> outputChan r' = outputChan r @ take (Suc j) (e # es) \<and>
        LogsReceived (stats r') = LogsReceived (stats r) + of_nat (Suc j)"
      by simp
    with s show ?thesis by blast
  next
    case False
    with Cons.prems have "status resp = 503 \<and> outputChan r' = outputChan r \<and>
        LogsReceived (stats r') = LogsReceived (stats r)"
      by (auto simp: httpError_def addErrors_def split: if_splits)
    then show ?thesis
      by (intro conjI exI [of _ 0]) auto
  qed
qed

lemma handleIngest_handoff:
  assumes run: "handleIngest r env req = (resp, r')" and st: "status resp = 200 \<or> status resp = 503"
  shows "\<exists>batch r3 out r4.
           decoded req = Some batch \<and>
           outputChan r3 = outputChan r \<and> outputCap r3 = outputCap r \<and> ctxDone r3 = ctxDone r \<and>
           LogsReceived (stats r3) = LogsReceived (stats r) \<and> Errors (stats r3) = Errors (stats r) \<and>
           handoff (selectSend env) 0 r3 (Entries batch) = (out, r4) \<and>
           (case out of
              Some rs \<Rightarrow> resp = rs \<and> r' = r4
            | None \<Rightarrow> resp = \<lparr>status = 200, received = Some (int (length (Entries batch)))\<rparr> \<and>
                      r' = r4\<lparr>stats := (stats r4)\<lparr>LastReceived := clockReceived env\<rparr>\<rparr>)"
proof -
  let ?r1 = "r\<lparr>stats := (stats r)\<lparr>RequestsReceived := RequestsReceived (stats r) + 1\<rparr>\<rparr>"
  let ?agent = "if XAgentID req = [] then RemoteAddr req else XAgentID req"
  obtain allowed r2 where rl: "checkRateLimit ?r1 ?agent (clockCreated env) (clockAllow env) = (allowed, r2)"
    by (cases "checkRateLimit ?r1 ?agent (clockCreated env) (clockAllow env)")
  note fr = checkRateLimit_frame [OF rl]
  from run st rl have post: "Method req = ''POST''" and allowed: allowed
    and gz: "\<not> (ContentEncoding req = ''gzip'' \<and> \<not> gzipOk req)"
    by (auto simp: handleIngest_def httpError_def Let_def split: if_splits)
  from run st rl post allowed gz obtain n where n: "bodyLen req = Some n"
    by (cases "bodyLen req") (auto simp: handleIngest_def httpError_def Let_def)
  let ?r3 = "r2\<lparr>stats := (stats r2)\<lparr>BytesReceived := BytesReceived (stats r2) + of_nat n\<rparr>\<rparr>"
  from run st rl post allowed gz n obtain batch where b: "decoded req = Some batch"
    by (cases "decoded req") (auto simp: handleIngest_def httpError_def Let_def)
  from run st rl post allowed gz n b
  have size: "\<not> int (length (Entries batch)) > MaxBatchSize (config ?r3)"
    by (auto simp: handleIngest_def httpError_def Let_def split: if_splits)
  obtain out r4 where h: "handoff (selectSend env) 0 ?r3 (Entries batch) = (out, r4)"
    by (cases "handoff (selectSend env) 0 ?r3 (Entries batch)")
  from run rl post allowed gz n b size h
  have res: "(resp, r') = (case out of Some resp \<Rightarrow> (resp, r4)
      | None \<Rightarrow> (\<lparr>status = 200, received = Some (int (length (Entries batch)))\<rparr>,
                  r4\<lparr>stats := (stats r4)\<lparr>LastReceived := clockReceived env\<rparr>\<rparr>))"
    by (simp add: handleIngest_def Let_def)
  then have "case out of
              Some rs \<Rightarrow> resp = rs \<and> r' = r4
            | None \<Rightarrow> resp = \<lparr>status = 200, received = Some (int (length (Entries batch)))\<rparr> \<and>
                      r' = r4\<lparr>stats := (stats r4)\<lparr>LastReceived := clockReceived env\<rparr>\<rparr>"
    by (cases out) simp_all
  with b h fr show ?thesis
    by (intro exI [of _ batch] exI [of _ ?r3] exI [of _ out] exI [of _ r4]) simp
qed

lemma handleIngest_200:
  assumes run: "handleIngest r env req = (resp, r')" and ok: "status resp = 200"
  shows "\<exists>batch. decoded req = Some batch \<and>
           received resp = Some (int (length (Entries batch))) \<and>
           outputChan r' = outputChan r @ Entries batch \<and>
           LogsReceived (stats r') = LogsReceived (stats r) + of_nat (length (Entries batch))"
proof -
  from handleIngest_handoff [OF run] ok obtain batch r3 out r4 where
    b: "decoded req = Some batch" and
    fr: "outputChan r3 = outputChan r" "LogsReceived (stats r3) = LogsReceived (stats r)" and
    h: "handoff (selectSend env) 0 r3 (Entries batch) = (out, r4)" and
    res: "case out of
              Some rs \<Rightarrow> resp = rs \<and> r' = r4
            | None \<Rightarrow> resp = \<lparr>status = 200, received = Some (int (length (Entries batch)))\<rparr> \<and>
                      r' = r4\<lparr>stats := (stats r4)\<lparr>LastReceived := clockReceived env\<rparr>\<rparr>"
    by blast
  have out: "out = None"
  proof (cases out)
    case (Some rs)
    with res have "resp = rs" by simp
    with handoff_stopped [OF h [unfolded Some]] ok show ?thesis by simp
  qed simp
  from res out have resp: "resp = \<lparr>status = 200, received = Some (int (length (Entries batch)))\<rparr>"
    and r': "r' = r4\<lparr>stats := (stats r4)\<lparr>LastReceived := clockReceived env\<rparr>\<rparr>"
    by simp_all
  from handoff_done [OF h [unfolded out]] fr
  have "outputChan r4 = outputChan r @ Entries batch"
    "LogsReceived (stats r4) = LogsReceived (stats r) + of_nat (length (Entries batch))"
    by simp_all
  with b resp r' show ?thesis by simp
qed

lemma handoff_room:
  "\<not> ctxDone r \<Longrightarrow> length (outputChan r) + length es \<le> outputCap r \<Longrightarrow>
   fst (handoff pick k r es) = None"
proof (induction es arbitrary: k r)
  case (Cons e es)
  then show ?case by simp
qed simp

lemma handoff_full:
  "\<not> ctxDone r \<Longrightarrow> length (outputChan r) \<le> outputCap r \<Longrightarrow>
   handoff pick k r es = (Some resp, r') \<Longrightarrow>
   outputCap r - length (outputChan r) < length es \<and>
   outputChan r' = outputChan r @ take (outputCap r - length (outputChan r)) es \<and>
   LogsReceived (stats r') =
     LogsReceived (stats r) + of_nat (outputCap r - length (outputChan r)) \<and>
   Errors (stats r') = Errors (stats r) + 1"
proof (induction es arbitrary: k r)
  case Nil
  then show ?case by simp
next
  case (Cons e es)
  show ?case
  proof (cases "length (outputChan r) < outputCap r")
    case True
    let ?r1 = "r\<lparr>outputChan := outputChan r @ [e],
                  stats := (stats r)\<lparr>LogsReceived := LogsReceived (stats r) + 1\<rparr>\<rparr>"
    from Cons.prems True have run: "handoff pick (k + 1) ?r1 es = (Some resp, r')"
      by simp
    have d: "outputCap r - length (outputChan r) = Suc (outputCap ?r1 - length (outputChan ?r1))"
      using True by simp
    from Cons.IH [OF _ _ run] Cons.prems(1) True
    show ?thesis unfolding d by simp
  next
    case False
    with Cons.prems show ?thesis
      by (auto simp: addErrors_def)
  qed
qed

lemma handleIngest_503:
  assumes run: "handleIngest r env req = (resp, r')" and st: "status resp = 503"
    and live: "\<not> ctxDone r" and wf: "length (outputChan r) \<le> outputCap r"
  shows "\<exists>batch. decoded req = Some batch \<and>
           outputCap r - length (outputChan r) < length (Entries batch) \<and>
           outputChan r' = outputChan r @ take (outputCap r - length (outputChan r)) (Entries batch) \<and>
           LogsReceived (stats r') =
             LogsReceived (stats r) + of_nat (outputCap r - length (outputChan r)) \<and>
           Errors (stats r') = Errors (stats r) + 1"
proof -
  from handleIngest_handoff [OF run] st obtain batch r3 out r4 where
    b: "decoded req = Some batch" and
    fr: "outputChan r3 = outputChan r" "outputCap r3 = outputCap r" "ctxDone r3 = ctxDone r"
      "LogsReceived (stats r3) = LogsReceived (stats r)" "Errors (stats r3) = Errors (stats r)" and
    h: "handoff (selectSend env) 0 r3 (Entries batch) = (out, r4)" and
    res: "case out of
              Some rs \<Rightarrow> resp = rs \<and> r' = r4
            | None \<Rightarrow> resp = \<lparr>status = 200, received = Some (int (length (Entries batch)))\<rparr> \<and>
                      r' = r4\<lparr>stats := (stats r4)\<lparr>LastReceived := clockReceived env\<rparr>\<rparr>"
    by blast
  from res st obtain rs where out: "out = Some rs" and r': "r' = r4"
    by (cases out) auto
  from handoff_full [OF _ _ h [unfolded out]] live wf fr b r' show ?thesis
    by simp
qed

text \<open>
  C2. When \<open>handleIngest\<close> answers 200, the request body decoded to a batch, the
  \<open>received\<close> field is the number \<open>n\<close> of the batch's entries, the output channel has
  gained exactly the batch's entry list, in order, and \<open>LogsReceived\<close> has grown by \<open>n\<close>.
\<close>

theorem ingest_200_enqueues_batch:
  assumes "handleIngest r env req = (resp, r')" and "status resp = 200"
  shows "\<exists>batch. decoded req = Some batch \<and>
           received resp = Some (int (length (Entries batch))) \<and>
           outputChan r' = outputChan r @ Entries batch \<and>
           LogsReceived (stats r') = LogsReceived (stats r) + of_nat (length (Entries batch))"
  using assms by (rule handleIngest_200)

lemma sample_first_call:
  "handleIngest (newReceiver receiver_DefaultConfig 2 queued) (envAt 5) (postOf (sampleBatch es))
   = (case handoff (\<lambda>k. True) 0
             ((newReceiver receiver_DefaultConfig 2 queued)
                \<lparr>stats := \<lparr>RequestsReceived = 1, LogsReceived = 0, BytesReceived = 100, Errors = 0,
                           LastReceived = 0\<rparr>,
                 rateLimits := [''agent-1'' \<mapsto> \<lparr>tokens = 999, maxTokens = 1000, lastRefill = 5\<rparr>]\<rparr>)
             es of
        (Some resp, r4) \<Rightarrow> (resp, r4)
      | (None, r4) \<Rightarrow> (\<lparr>status = 200, received = Some (int (length es))\<rparr>,
                        r4\<lparr>stats := (stats r4)\<lparr>LastReceived := 5\<rparr>\<rparr>))"
  if "length es \<le> 10000"
  using that
  by (simp add: handleIngest_def checkRateLimit_def allow_def wholeSeconds_def newReceiver_def
      receiver_DefaultConfig_def envAt_def postOf_def sampleBatch_def Second_def Let_def
      split: prod.splits option.splits)

theorem ingest_200_witness:
  "status (fst (handleIngest (newReceiver receiver_DefaultConfig 2 []) (envAt 5)
       (postOf (sampleBatch [entryAt ''a'' 1 ''m'', entryAt ''b'' 2 ''m''])))) = 200 \<and>
   received (fst (handleIngest (newReceiver receiver_DefaultConfig 2 []) (envAt 5)
       (postOf (sampleBatch [entryAt ''a'' 1 ''m'', entryAt ''b'' 2 ''m''])))) = Some 2 \<and>
   outputChan (snd (handleIngest (newReceiver receiver_DefaultConfig 2 []) (envAt 5)
       (postOf (sampleBatch [entryAt ''a'' 1 ''m'', entryAt ''b'' 2 ''m''])))) =
     [entryAt ''a'' 1 ''m'', entryAt ''b'' 2 ''m''] \<and>
   LogsReceived (stats (snd (handleIngest (newReceiver receiver_DefaultConfig 2 []) (envAt 5)
       (postOf (sampleBatch [entryAt ''a'' 1 ''m'', entryAt ''b'' 2 ''m'']))))) = 2"
proof -
  let ?X = "handleIngest (newReceiver receiver_DefaultConfig 2 []) (envAt 5)
       (postOf (sampleBatch [entryAt ''a'' 1 ''m'', entryAt ''b'' 2 ''m'']))"
  have st: "status (fst ?X) = 200"
    by (simp add: sample_first_call) (simp add: newReceiver_def)
  from ingest_200_enqueues_batch [OF prod.collapse [symmetric] st]
  show ?thesis
    using st by (auto simp: postOf_def sampleBatch_def newReceiver_def)
qed

text \<open>
  C10. When \<open>handleIngest\<close> answers 503 on a receiver that is not shutting down, the
  channel had room for fewer entries than the batch holds; the entries handed off before
  the failing one, as many as there was room for, stay on the channel and are counted in
  \<open>LogsReceived\<close>; and a retry of the same request that is answered 200, whatever the
  channel holds by then, puts the whole batch on the channel, those entries a second
  time.
\<close>

theorem ingest_503_keeps_prefix:
  assumes "handleIngest r env req = (resp, r')" and "status resp = 503"
    and "\<not> ctxDone r" and "length (outputChan r) \<le> outputCap r"
  shows "\<exists>batch. decoded req = Some batch \<and>
           outputCap r - length (outputChan r) < length (Entries batch) \<and>
           outputChan r' = outputChan r @ take (outputCap r - length (outputChan r)) (Entries batch) \<and>
           LogsReceived (stats r') =
             LogsReceived (stats r) + of_nat (outputCap r - length (outputChan r)) \<and>
           (\<forall>q env2. status (fst (handleIngest (r'\<lparr>outputChan := q\<rparr>) env2 req)) = 200 \<longrightarrow>
              outputChan (snd (handleIngest (r'\<lparr>outputChan := q\<rparr>) env2 req)) = q @ Entries batch)"
proof -
  from handleIngest_503 [OF assms] obtain batch where
    b: "decoded req = Some batch" and
    rest: "outputCap r - length (outputChan r) < length (Entries batch)"
      "outputChan r' = outputChan r @ take (outputCap r - length (outputChan r)) (Entries batch)"
      "LogsReceived (stats r') =
         LogsReceived (stats r) + of_nat (outputCap r - length (outputChan r))"
    by blast
  have "outputChan (snd (handleIngest (r'\<lparr>outputChan := q\<rparr>) env2 req)) = q @ Entries batch"
    if "status (fst (handleIngest (r'\<lparr>outputChan := q\<rparr>) env2 req)) = 200" for q env2
    using handleIngest_200 [OF prod.collapse [symmetric] that] b by auto
  with b rest show ?thesis by blast
qed

theorem ingest_503_witness:
  "status (fst (handleIngest (newReceiver receiver_DefaultConfig 2 [entryAt ''x'' 0 ''m'']) (envAt 5)
       (postOf (sampleBatch [entryAt ''a'' 1 ''m'', entryAt ''b'' 2 ''m''])))) = 503 \<and>
   outputChan (snd (handleIngest (newReceiver receiver_DefaultConfig 2 [entryAt ''x'' 0 ''m''])
       (envAt 5) (postOf (sampleBatch [entryAt ''a'' 1 ''m'', entryAt ''b'' 2 ''m''])))) =
     [entryAt ''x'' 0 ''m'', entryAt ''a'' 1 ''m''] \<and>
   LogsReceived (stats (snd (handleIngest (newReceiver receiver_DefaultConfig 2 [entryAt ''x'' 0 ''m''])
       (envAt 5) (postOf (sampleBatch [entryAt ''a'' 1 ''m'', entryAt ''b'' 2 ''m'']))))) = 1 \<and>
   status (fst (handleIngest
       ((snd (handleIngest (newReceiver receiver_DefaultConfig 2 [entryAt ''x'' 0 ''m'']) (envAt 5)
          (postOf (sampleBatch [entryAt ''a'' 1 ''m'', entryAt ''b'' 2 ''m'']))))\<lparr>outputChan := []\<rparr>)
       (envAt 6) (postOf (sampleBatch [entryAt ''a'' 1 ''m'', entryAt ''b'' 2 ''m''])))) = 200 \<and>
   outputChan (snd (handleIngest
       ((snd (handleIngest (newReceiver receiver_DefaultConfig 2 [entryAt ''x'' 0 ''m'']) (envAt 5)
          (postOf (sampleBatch [entryAt ''a'' 1 ''m'', entryAt ''b'' 2 ''m'']))))\<lparr>outputChan := []\<rparr>)
       (envAt 6) (postOf (sampleBatch [entryAt ''a'' 1 ''m'', entryAt ''b'' 2 ''m''])))) =
     [entryAt ''a'' 1 ''m'', entryAt ''b'' 2 ''m'']"
proof -
  let ?R = "newReceiver receiver_DefaultConfig 2 [entryAt ''x'' 0 ''m'']"
  let ?Q = "postOf (sampleBatch [entryAt ''a'' 1 ''m'', entryAt ''b'' 2 ''m''])"
  let ?X = "handleIngest ?R (envAt 5) ?Q"
  have X: "?X = (httpError 503,
      \<lparr>config = receiver_DefaultConfig,
       outputChan = [entryAt ''x'' 0 ''m'', entryAt ''a'' 1 ''m''], outputCap = 2, ctxDone = False,
       stats = \<lparr>RequestsReceived = 1, LogsReceived = 1, BytesReceived = 100, Errors = 1,
                LastReceived = 0\<rparr>,
       rateLimits = [''agent-1'' \<mapsto> \<lparr>tokens = 999, maxTokens = 1000, lastRefill = 5\<rparr>]\<rparr>)"
    by (simp add: sample_first_call) (simp add: newReceiver_def addErrors_def)
  have st: "status (fst ?X) = 503"
    by (simp add: X httpError_def)
  have live: "\<not> ctxDone ?R" and wf: "length (outputChan ?R) \<le> outputCap ?R"
    by (simp_all add: newReceiver_def)
  let ?Y = "handleIngest ((snd ?X)\<lparr>outputChan := []\<rparr>) (envAt 6) ?Q"
  have st2: "status (fst ?Y) = 200"
    unfolding X
    by (simp add: handleIngest_def checkRateLimit_def allow_def wholeSeconds_def
        receiver_DefaultConfig_def envAt_def postOf_def sampleBatch_def Second_def Let_def)
  from ingest_503_keeps_prefix [OF prod.collapse [symmetric] st live wf]
  obtain batch where b: "decoded ?Q = Some batch"
    and pre: "outputChan (snd ?X) = outputChan ?R @ take (outputCap ?R - length (outputChan ?R)) (Entries batch)"
    and cnt: "LogsReceived (stats (snd ?X)) =
         LogsReceived (stats ?R) + of_nat (outputCap ?R - length (outputChan ?R))"
    and retry: "\<forall>q env2. status (fst (handleIngest ((snd ?X)\<lparr>outputChan := q\<rparr>) env2 ?Q)) = 200 \<longrightarrow>
        outputChan (snd (handleIngest ((snd ?X)\<lparr>outputChan := q\<rparr>) env2 ?Q)) = q @ Entries batch"
    by blast
  from b have batch: "Entries batch = [entryAt ''a'' 1 ''m'', entryAt ''b'' 2 ''m'']"
    by (auto simp: postOf_def sampleBatch_def)
  from retry st2 have "outputChan (snd ?Y) = [] @ Entries batch"
    by blast
  with st st2 pre cnt batch show ?thesis
    by (simp add: newReceiver_def)
qed

subsection \<open>Receiver: rate limiting\<close>


















subsection \<open>Query engine: the result cache\<close>











subsection \<open>LogEntry.Clone\<close>

lemma Clone_Some:
  assumes "Clone h l = Some (c, h')"
  obtains e where "objs h l = Some (EntryObj e)"
    and "c = nextFree h + 2"
    and "nextFree h' = nextFree h + 3"
    and "objs h' = (objs h)(nextFree h \<mapsto> MapObj (fieldsOf h (Fields e)),
                            nextFree h + 1 \<mapsto> TagsObj (tagsOf h (Tags e)),
                            nextFree h + 2 \<mapsto> EntryObj (e\<lparr>Fields := Some (nextFree h),
                                                          Tags := Some (nextFree h + 1)\<rparr>))"
proof -
  from assms obtain e where e: "objs h l = Some (EntryObj e)"
    by (auto simp: Clone_def split: option.splits obj.splits)
  from assms e have "c = nextFree h + 2" "nextFree h' = nextFree h + 3"
    "objs h' = (objs h)(nextFree h \<mapsto> MapObj (fieldsOf h (Fields e)),
                            nextFree h + 1 \<mapsto> TagsObj (tagsOf h (Tags e)),
                            nextFree h + 2 \<mapsto> EntryObj (e\<lparr>Fields := Some (nextFree h),
                                                          Tags := Some (nextFree h + 1)\<rparr>))"
    by (auto simp: Clone_def alloc_def store_def Let_def fun_eq_iff)
  with e show thesis by (rule that)
qed

text \<open>\<open>Clone\<close> leaves every object that existed before the call as it was.\<close>

lemma Clone_frame:
  assumes "Clone h l = Some (c, h')" and "a < nextFree h"
  shows "objs h' a = objs h a"
  using assms by (elim Clone_Some) simp

text \<open>The clone is a new entry with a new map and a new array of tags, holding the
  original's scalars, keys with their values, and tags.\<close>

lemma Clone_copy:
  assumes "Clone h l = Some (c, h')" and "objs h l = Some (EntryObj e)"
  shows "\<exists>e'. objs h' c = Some (EntryObj e') \<and>
           e' = e\<lparr>Fields := Some (nextFree h), Tags := Some (nextFree h + 1)\<rparr> \<and>
           fieldsOf h' (Fields e') = fieldsOf h (Fields e) \<and>
           tagsOf h' (Tags e') = tagsOf h (Tags e)"
  using assms by (elim Clone_Some) (simp add: fieldsOf_def tagsOf_def)

text \<open>A field read through the clone gives the value read through the original: a
  reference stored in \<open>Fields\<close> is the same reference in both.\<close>

lemma Clone_GetField:
  assumes "Clone h l = Some (c, h')"
  shows "GetField h' c key = GetField h l key"
  using assms by (elim Clone_Some) (simp add: GetField_def fieldsOf_def)

text \<open>Writes to the clone's own scalars, own map and own tags do not reach any object
  that existed before the call.\<close>

lemma Clone_own_writes:
  assumes "Clone h l = Some (c, h')" and "a < nextFree h"
  shows "objs (AddField h' c key v) a = objs h a"
    and "objs (setMessage h' c s) a = objs h a"
    and "objs (setTag h' c i s) a = objs h a"
  using assms
  by (elim Clone_Some; simp add: AddField_def setMessage_def setTag_def store_def fieldsOf_def
      tagsOf_def)+

text \<open>
  C7 fails on the code. The entry at address 3 holds a nested map under \<open>request\<close>. Its
  clone is the new entry at address 6; the value the clone holds under \<open>request\<close> is the
  reference to the same nested map, so the store \<open>clone.Fields["request"]["status"] = 500\<close>
  changes what the original reads there, from 200 to 500.
\<close>

theorem Clone_shares_nested_map:
  "readNested nestedHeap 3 ''request'' ''status'' = Some (VNumber 200) \<and>
   (case Clone nestedHeap 3 of
      None \<Rightarrow> False
    | Some (c, h1) \<Rightarrow>
        c = 6 \<and>
        (case GetField h1 c ''request'' of
           None \<Rightarrow> False
         | Some v \<Rightarrow>
             readNested (nestedSet h1 v ''status'' (VNumber 500)) 3 ''request'' ''status''
               = Some (VNumber 500)))"
  by (simp add: Clone_def nestedHeap_def alloc_def store_def Let_def GetField_def fieldsOf_def
      tagsOf_def readNested_def nestedSet_def nestedGet_def)

subsection \<open>Store: Write then Get\<close>

lemma seekTo_boundary:
  "\<forall>m \<in> set pre. 0 < ws m \<Longrightarrow> seekTo ws (fileSize ws pre) (pre @ rest) = Some rest"
proof (induction pre)
  case Nil
  then show ?case by (simp add: fileSize_def)
next
  case (Cons m pre)
  then have pos: "0 < ws m" and ih: "seekTo ws (fileSize ws pre) (pre @ rest) = Some rest"
    by (simp_all add: fileSize_def)
  obtain n where n: "ws m + fileSize ws pre = Suc n"
    using pos by (cases "ws m + fileSize ws pre") simp_all
  have "seekTo ws (Suc n) (m # pre @ rest) = seekTo ws (Suc n - ws m) (pre @ rest)"
    using n by simp
  also have "Suc n - ws m = fileSize ws pre"
    using n by simp
  finally show ?case
    using ih n by (simp add: fileSize_def)
qed

lemma gob_Decode_fresh:
  "gob_Decode False (fst (gob_Encode sent e)) = (if sent then None else Some (e, True, []))"
  by (simp add: gob_Encode_def)

lemma getPartition_existing:
  "partitions fs (formatHour lib (Truncate t (PartitionInterval (storeConfig fs)))) = Some part \<Longrightarrow>
   getPartition lib fs t =
     (part, formatHour lib (Truncate t (PartitionInterval (storeConfig fs))), fs)"
  by (simp add: getPartition_def Let_def)

lemma getPartition_key:
  "getPartition lib fs t = (part, key, fs1) \<Longrightarrow>
   key = formatHour lib (Truncate t (PartitionInterval (storeConfig fs))) \<and>
   storeConfig fs1 = storeConfig fs"
  by (auto simp: getPartition_def Let_def split: option.splits)

text \<open>What a successful \<open>Write\<close> leaves behind for its entry: the messages appended to
  the partition file, the index entry with the size of the file before the write, and
  the partition with an encoder that has sent its type definitions.\<close>

lemma Write_effect:
  assumes enc: "gobEncodable lib entry"
    and gp: "getPartition lib fs (Timestamp entry) = (part, key, fs1)"
  shows "fst (Write lib fs entry) = None"
    and "disk (snd (Write lib fs entry)) (partPath part) =
           Some ((case disk fs1 (partPath part) of None \<Rightarrow> [] | Some ms \<Rightarrow> ms)
                 @ fst (gob_Encode (encoderSent part) entry))"
    and "storeIndex (snd (Write lib fs entry)) (ID entry) =
           Some \<lparr>ixID = ID entry, ixPartition = partPath part,
                 ixOffset = fileSize (wireSize lib)
                    (case disk fs1 (partPath part) of None \<Rightarrow> [] | Some ms \<Rightarrow> ms),
                 ixTimestamp = Timestamp entry\<rparr>"
    and "partitions (snd (Write lib fs entry)) key =
           Some (part\<lparr>encoderSent := True, partCount := partCount part + 1\<rparr>)"
    and "storeConfig (snd (Write lib fs entry)) = storeConfig fs"
  using enc gp getPartition_key [OF gp]
  by (simp_all add: Write_def Let_def gob_Encode_def split: prod.splits)

text \<open>\<open>Get\<close> right after \<open>Write\<close>: the entry comes back exactly when the partition's encoder
  had not sent its type definitions before, that is, for the first entry written through
  it; for every later entry the new decoder meets a value of a type it was never told.\<close>

lemma Write_then_Get:
  assumes pos: "\<forall>m. 0 < wireSize lib m" and enc: "gobEncodable lib entry"
    and gp: "getPartition lib fs (Timestamp entry) = (part, key, fs1)"
  shows "Get lib (snd (Write lib fs entry)) (ID entry) =
           (if encoderSent part then Inl DecodeError else Inr entry)"
proof -
  let ?pre = "case disk fs1 (partPath part) of None \<Rightarrow> [] | Some ms \<Rightarrow> ms"
  let ?msgs = "fst (gob_Encode (encoderSent part) entry)"
  note w = Write_effect [OF enc gp]
  have seek: "seekTo (wireSize lib) (fileSize (wireSize lib) ?pre) (?pre @ ?msgs) = Some ?msgs"
    using pos by (intro seekTo_boundary) simp
  show ?thesis
    by (simp add: Get_def w seek gob_Decode_fresh)
qed

lemma second_Write_then_Get:
  assumes pos: "\<forall>m. 0 < wireSize lib m" and enc: "gobEncodable lib e1" "gobEncodable lib e2"
    and same: "formatHour lib (Truncate (Timestamp e2) (PartitionInterval (storeConfig fs))) =
               formatHour lib (Truncate (Timestamp e1) (PartitionInterval (storeConfig fs)))"
  shows "Get lib (snd (Write lib (snd (Write lib fs e1)) e2)) (ID e2) = Inl DecodeError"
proof -
  obtain part key fs1 where gp1: "getPartition lib fs (Timestamp e1) = (part, key, fs1)"
    by (cases "getPartition lib fs (Timestamp e1)")
  let ?fs' = "snd (Write lib fs e1)"
  let ?part' = "part\<lparr>encoderSent := True, partCount := partCount part + 1\<rparr>"
  note w = Write_effect [OF enc(1) gp1]
  from getPartition_key [OF gp1] have key: "key = formatHour lib (Truncate (Timestamp e1) (PartitionInterval (storeConfig fs)))"
    by simp
  have "partitions ?fs' (formatHour lib (Truncate (Timestamp e2) (PartitionInterval (storeConfig ?fs')))) = Some ?part'"
    using w(4) by (simp add: w(5) same key)
  from getPartition_existing [OF this]
  have gp2: "getPartition lib ?fs' (Timestamp e2) =
      (?part', formatHour lib (Truncate (Timestamp e2) (PartitionInterval (storeConfig ?fs'))), ?fs')" .
  from Write_then_Get [OF pos enc(2) gp2] show ?thesis
    by simp
qed

lemma getPartition_new:
  "partitions fs (formatHour lib (Truncate t (PartitionInterval (storeConfig fs)))) = None \<Longrightarrow>
   encoderSent (fst (getPartition lib fs t)) = False"
  by (simp add: getPartition_def Let_def)

lemma sampleLib_ok: "\<forall>m. 0 < wireSize sampleLib m" "gobEncodable sampleLib e"
  by (auto simp: sampleLib_def split: gob_msg.splits)

text \<open>
  C1 fails on the code. On a new store with the default configuration, an entry is
  written and read back by \<open>Get\<close>; a second entry written to the same partition is in
  the index with the right offset, but \<open>Get\<close> of its identifier returns a decode error:
  the partition's encoder sent the type definitions with the first entry only, and the
  new decoder of \<open>Get\<close>, started at the second entry's offset, never sees them.
\<close>

theorem Get_fails_for_second_entry:
  "Get sampleLib
     (snd (Write sampleLib (NewFileStore storage_DefaultConfig) (entryAt ''id-1'' 0 ''first'')))
     ''id-1'' = Inr (entryAt ''id-1'' 0 ''first'') \<and>
   Get sampleLib
     (snd (Write sampleLib
        (snd (Write sampleLib (NewFileStore storage_DefaultConfig) (entryAt ''id-1'' 0 ''first'')))
        (entryAt ''id-2'' 1 ''second'')))
     ''id-2'' = Inl DecodeError"
proof
  let ?fs = "NewFileStore storage_DefaultConfig :: (unit, unit) FileStore"
  let ?e1 = "entryAt ''id-1'' 0 ''first''"
  let ?e2 = "entryAt ''id-2'' 1 ''second''"
  obtain part key fs1 where gp: "getPartition sampleLib ?fs (Timestamp ?e1) = (part, key, fs1)"
    by (cases "getPartition sampleLib ?fs (Timestamp ?e1)")
  have "encoderSent (fst (getPartition sampleLib ?fs (Timestamp ?e1))) = False"
    by (rule getPartition_new) (simp add: NewFileStore_def)
  with gp have fresh: "\<not> encoderSent part"
    by simp
  from Write_then_Get [OF sampleLib_ok(1) sampleLib_ok(2) gp] fresh
  show "Get sampleLib (snd (Write sampleLib ?fs ?e1)) ''id-1'' = Inr ?e1"
    by (simp add: entryAt_def)
  have same: "formatHour sampleLib (Truncate (Timestamp ?e2) (PartitionInterval (storeConfig ?fs))) =
      formatHour sampleLib (Truncate (Timestamp ?e1) (PartitionInterval (storeConfig ?fs)))"
    by (simp add: entryAt_def Truncate_def NewFileStore_def storage_DefaultConfig_def zeroTime_def
        Second_def)
  from second_Write_then_Get [OF sampleLib_ok(1) sampleLib_ok(2) sampleLib_ok(2) same]
  show "Get sampleLib (snd (Write sampleLib (snd (Write sampleLib ?fs ?e1)) ?e2)) ''id-2'' = Inl DecodeError"
    by (simp add: entryAt_def)
qed

end
